theory Spec2Isabelle
  imports Complex_Main
begin

section \<open>JavaScript numbers\<close>

text \<open>
  The component computes with JavaScript numbers, which are IEEE doubles: a finite value, one
  of the two infinities, or \<open>NaN\<close>. A finite value is modelled by a real and arithmetic on
  finite values is exact, except that a result whose magnitude reaches \<open>2^1024 - 2^970\<close>
  (the least magnitude that rounds beyond the largest double) overflows to an infinity, as
  it does on doubles. The operations follow IEEE 754 and ECMAScript on the infinities and on
  \<open>NaN\<close>. Rounding to 53 bits, underflow and the sign of zero are not modelled; the decimal
  literals \<open>0.18\<close>, \<open>0.3\<close> and \<open>22.5\<close> are the fractions they denote.
\<close>

datatype jsnum = Num real | PosInf | NegInf | NaN

definition overflowAt :: real where
  "overflowAt = 2 ^ 1024 - 2 ^ 970"

definition fromReal :: "real \<Rightarrow> jsnum" where
  \<comment> \<open>The number that an operation with the exact result \<open>x\<close> returns.\<close>
  "fromReal x =
     (if overflowAt \<le> x then PosInf else if x \<le> - overflowAt then NegInf else Num x)"

definition infinityOf :: "real \<Rightarrow> jsnum" where
  \<comment> \<open>An infinity times the finite \<open>x\<close>, and \<open>x / 0\<close>: the infinity with the sign of \<open>x\<close>,
      and \<open>NaN\<close> when \<open>x\<close> is zero.\<close>
  "infinityOf x = (if 0 < x then PosInf else if x < 0 then NegInf else NaN)"

fun jsNeg :: "jsnum \<Rightarrow> jsnum" where
  "jsNeg (Num a) = Num (- a)"
| "jsNeg PosInf = NegInf"
| "jsNeg NegInf = PosInf"
| "jsNeg NaN = NaN"

fun jsAdd :: "jsnum \<Rightarrow> jsnum \<Rightarrow> jsnum" where
  \<comment> \<open>The operator \<open>+\<close> on numbers.\<close>
  "jsAdd (Num a) (Num b) = fromReal (a + b)"
| "jsAdd NaN _ = NaN"
| "jsAdd _ NaN = NaN"
| "jsAdd PosInf NegInf = NaN"
| "jsAdd NegInf PosInf = NaN"
| "jsAdd PosInf _ = PosInf"
| "jsAdd _ PosInf = PosInf"
| "jsAdd NegInf _ = NegInf"
| "jsAdd _ NegInf = NegInf"

definition jsSub :: "jsnum \<Rightarrow> jsnum \<Rightarrow> jsnum" where
  \<comment> \<open>The operator \<open>-\<close>.\<close>
  "jsSub a b = jsAdd a (jsNeg b)"

fun jsMul :: "jsnum \<Rightarrow> jsnum \<Rightarrow> jsnum" where
  \<comment> \<open>The operator \<open>*\<close>.\<close>
  "jsMul (Num a) (Num b) = fromReal (a * b)"
| "jsMul NaN _ = NaN"
| "jsMul _ NaN = NaN"
| "jsMul PosInf (Num b) = infinityOf b"
| "jsMul (Num a) PosInf = infinityOf a"
| "jsMul NegInf (Num b) = infinityOf (- b)"
| "jsMul (Num a) NegInf = infinityOf (- a)"
| "jsMul PosInf PosInf = PosInf"
| "jsMul PosInf NegInf = NegInf"
| "jsMul NegInf PosInf = NegInf"
| "jsMul NegInf NegInf = PosInf"

fun jsDiv :: "jsnum \<Rightarrow> jsnum \<Rightarrow> jsnum" where
  \<comment> \<open>The operator \<open>/\<close>. A zero divisor counts as positive zero.\<close>
  "jsDiv (Num a) (Num b) = (if b = 0 then infinityOf a else fromReal (a / b))"
| "jsDiv NaN _ = NaN"
| "jsDiv _ NaN = NaN"
| "jsDiv (Num a) _ = Num 0"
| "jsDiv PosInf (Num b) = (if 0 \<le> b then PosInf else NegInf)"
| "jsDiv NegInf (Num b) = (if 0 \<le> b then NegInf else PosInf)"
| "jsDiv _ _ = NaN"

definition jsTrunc :: "real \<Rightarrow> int" where
  \<comment> \<open>The integer part of a quotient, rounded toward zero.\<close>
  "jsTrunc x = (if 0 \<le> x then \<lfloor>x\<rfloor> else \<lceil>x\<rceil>)"

definition jsmod :: "real \<Rightarrow> real \<Rightarrow> real" where
  \<comment> \<open>The remainder of the truncating division of finite values, which has the sign of the
      dividend. It is exact on doubles as well.\<close>
  "jsmod a b = a - b * of_int (jsTrunc (a / b))"

fun jsRem :: "jsnum \<Rightarrow> jsnum \<Rightarrow> jsnum" where
  \<comment> \<open>The operator \<open>%\<close>.\<close>
  "jsRem (Num a) (Num b) = (if b = 0 then NaN else Num (jsmod a b))"
| "jsRem (Num a) PosInf = Num a"
| "jsRem (Num a) NegInf = Num a"
| "jsRem _ _ = NaN"

fun jsLess :: "jsnum \<Rightarrow> jsnum \<Rightarrow> bool" where
  \<comment> \<open>The operator \<open><\<close>: false whenever an operand is \<open>NaN\<close>.\<close>
  "jsLess (Num a) (Num b) = (a < b)"
| "jsLess NaN _ = False"
| "jsLess _ NaN = False"
| "jsLess PosInf _ = False"
| "jsLess _ NegInf = False"
| "jsLess _ _ = True"

definition Math_PI :: jsnum where
  "Math_PI = Num pi"

fun Math_sin :: "jsnum \<Rightarrow> jsnum" where
  "Math_sin (Num a) = Num (sin a)"
| "Math_sin _ = NaN"

fun Math_cos :: "jsnum \<Rightarrow> jsnum" where
  "Math_cos (Num a) = Num (cos a)"
| "Math_cos _ = NaN"

definition atan2 :: "real \<Rightarrow> real \<Rightarrow> real" where
  \<comment> \<open>The angle of the point \<open>(x, y)\<close>, by quadrant.\<close>
  "atan2 y x =
     (if 0 < x then arctan (y / x)
      else if x < 0 then (if 0 \<le> y then arctan (y / x) + pi else arctan (y / x) - pi)
      else if 0 < y then pi / 2
      else if y < 0 then - (pi / 2)
      else 0)"

fun Math_atan2 :: "jsnum \<Rightarrow> jsnum \<Rightarrow> jsnum" where
  "Math_atan2 (Num y) (Num x) = Num (atan2 y x)"
| "Math_atan2 NaN _ = NaN"
| "Math_atan2 _ NaN = NaN"
| "Math_atan2 (Num y) PosInf = Num 0"
| "Math_atan2 (Num y) NegInf = Num (if 0 \<le> y then pi else - pi)"
| "Math_atan2 PosInf (Num x) = Num (pi / 2)"
| "Math_atan2 NegInf (Num x) = Num (- (pi / 2))"
| "Math_atan2 PosInf PosInf = Num (pi / 4)"
| "Math_atan2 PosInf NegInf = Num (3 * pi / 4)"
| "Math_atan2 NegInf PosInf = Num (- (pi / 4))"
| "Math_atan2 NegInf NegInf = Num (- (3 * pi / 4))"

fun Math_abs :: "jsnum \<Rightarrow> jsnum" where
  "Math_abs (Num a) = Num \<bar>a\<bar>"
| "Math_abs NaN = NaN"
| "Math_abs _ = PosInf"

definition jsRound :: "real \<Rightarrow> int" where
  \<comment> \<open>The nearest integer, a tie going toward positive infinity.\<close>
  "jsRound x = \<lfloor>x + 1 / 2\<rfloor>"

fun Math_round :: "jsnum \<Rightarrow> jsnum" where
  "Math_round (Num a) = Num (of_int (jsRound a))"
| "Math_round a = a"

fun jsIndex :: "'a list \<Rightarrow> jsnum \<Rightarrow> 'a option" where
  \<comment> \<open>Reading \<open>xs[i]\<close> with a number \<open>i\<close>: the element when \<open>i\<close> is an integer within the
      array, \<open>undefined\<close> (here \<open>None\<close>) otherwise.\<close>
  "jsIndex xs (Num i) =
     (if 0 \<le> i \<and> i < real (length xs) \<and> i = of_int \<lfloor>i\<rfloor> then Some (xs ! nat \<lfloor>i\<rfloor>) else None)"
| "jsIndex xs _ = None"

section \<open>The bearing calculator\<close>

text \<open>The coordinates of a point are finite numbers.\<close>

record GeoPoint =
  lat :: real
  lng :: real

definition calculateBearing :: "GeoPoint option \<Rightarrow> GeoPoint option \<Rightarrow> jsnum" where
  \<comment> \<open>The arguments are options because the function tests them for \<open>null\<close>.\<close>
  "calculateBearing start finish =
     (case start of
        None \<Rightarrow> Num 0
      | Some s \<Rightarrow>
          (case finish of
             None \<Rightarrow> Num 0
           | Some e \<Rightarrow>
               if lat s = lat e \<and> lng s = lng e then Num 0
               else
                 let lat1 = jsDiv (jsMul (Num (lat s)) Math_PI) (Num 180);
                     lat2 = jsDiv (jsMul (Num (lat e)) Math_PI) (Num 180);
                     dLng = jsDiv (jsMul (jsSub (Num (lng e)) (Num (lng s))) Math_PI) (Num 180);
                     y = jsMul (Math_sin dLng) (Math_cos lat2);
                     x = jsSub (jsMul (Math_cos lat1) (Math_sin lat2))
                           (jsMul (jsMul (Math_sin lat1) (Math_cos lat2)) (Math_cos dLng));
                     bearing = jsDiv (jsMul (Math_atan2 y x) (Num 180)) Math_PI
                 in jsRem (jsAdd bearing (Num 360)) (Num 360)))"


definition directions :: "string list" where
  "directions =
     [''N'', ''NNE'', ''NE'', ''ENE'', ''E'', ''ESE'', ''SE'', ''SSE'',
      ''S'', ''SSW'', ''SW'', ''WSW'', ''W'', ''WNW'', ''NW'', ''NNW'']"

definition directionIndex :: "jsnum \<Rightarrow> jsnum" where
  "directionIndex bearing = jsRem (Math_round (jsDiv bearing (Num (45 / 2)))) (Num 16)"

definition bearingToDirection :: "jsnum \<Rightarrow> string option" where
  "bearingToDirection bearing = jsIndex directions (directionIndex bearing)"

section \<open>The component state and its effects\<close>

text \<open>
  \<open>direction\<close>, \<open>degrees\<close> and \<open>animatedDeg\<close> are the three state cells of the component and
  \<open>animRef\<close> is the angle kept across frames. The component draws \<open>direction\<close> as the label
  and \<open>animatedDeg\<close> as the needle and the degrees text; \<open>degrees\<close> is the target of the
  animation and is not drawn. \<open>framePending\<close> stands for the browser's frame queue as far as
  this component is concerned: it holds exactly when a \<open>step\<close> callback has been requested
  with \<open>requestAnimationFrame\<close> and has neither run nor been cancelled.
\<close>

record CompassState =
  direction :: "string option"
  degrees :: jsnum
  animatedDeg :: jsnum
  animRef :: jsnum
  framePending :: bool

definition initialState :: CompassState where
  "initialState =
     \<lparr>direction = Some ''N'', degrees = Num 0, animatedDeg = Num 0, animRef = Num 0,
      framePending = False\<rparr>"

definition locationEffect ::
  "GeoPoint option \<Rightarrow> GeoPoint option \<Rightarrow> CompassState \<Rightarrow> CompassState" where
  \<comment> \<open>The effect that runs when \<open>busLocation\<close> or \<open>previousLocation\<close> changes.\<close>
  "locationEffect busLocation previousLocation s =
     (if busLocation \<noteq> None \<and> previousLocation \<noteq> None
      then let bearing = calculateBearing previousLocation busLocation
           in s\<lparr>degrees := bearing, direction := bearingToDirection bearing\<rparr>
      else s)"

definition shortestDelta :: "jsnum \<Rightarrow> jsnum \<Rightarrow> jsnum" where
  \<comment> \<open>The shortest angular distance of \<open>step\<close>, from the current angle to the target.\<close>
  "shortestDelta target current =
     jsSub (jsRem (jsAdd (jsSub target current) (Num 540)) (Num 360)) (Num 180)"

definition easedAngle :: "jsnum \<Rightarrow> jsnum \<Rightarrow> jsnum" where
  \<comment> \<open>The angle that the easing branch of \<open>step\<close> assigns:
      \<open>(current + delta * 0.18 + 360) % 360\<close>.\<close>
  "easedAngle current delta =
     jsRem (jsAdd (jsAdd current (jsMul delta (Num (18 / 100)))) (Num 360)) (Num 360)"

definition step :: "CompassState \<Rightarrow> CompassState" where
  \<comment> \<open>One frame callback. The callback that runs is no longer pending; the easing branch
      requests the next frame, the snapping branch returns without doing so.\<close>
  "step s =
     (let current = animRef s;
          target = degrees s;
          delta = shortestDelta target current
      in if jsLess (Math_abs delta) (Num (3 / 10))
         then s\<lparr>animRef := target, animatedDeg := target, framePending := False\<rparr>
         else s\<lparr>animRef := easedAngle current delta, animatedDeg := easedAngle current delta,
                framePending := True\<rparr>)"

definition animationEffect :: "CompassState \<Rightarrow> CompassState" where
  \<comment> \<open>The effect that runs when \<open>degrees\<close> changes: it cancels the pending frame, if any,
      and requests one.\<close>
  "animationEffect s = s\<lparr>framePending := True\<rparr>"

definition newLocations ::
  "GeoPoint option \<Rightarrow> GeoPoint option \<Rightarrow> CompassState \<Rightarrow> CompassState" where
  \<comment> \<open>New props: the location effect, then the animation effect if \<open>degrees\<close> changed. The
      framework compares the old and the new value with \<open>Object.is\<close>, for which \<open>NaN\<close> is
      the same as \<open>NaN\<close>.\<close>
  "newLocations busLocation previousLocation s =
     (let s' = locationEffect busLocation previousLocation s
      in if degrees s' = degrees s then s' else animationEffect s')"

fun animate :: "nat \<Rightarrow> CompassState \<Rightarrow> CompassState option" where
  \<comment> \<open>The frame loop with a fixed target: \<open>step\<close> runs as long as it requests another
      frame. The first argument bounds the number of ticks; \<open>None\<close> means the bound was
      reached with a frame still pending.\<close>
  "animate 0 s = None"
| "animate (Suc n) s = (let s' = step s in if framePending s' then animate n s' else Some s')"

definition accepts :: "(GeoPoint \<Rightarrow> bool) \<Rightarrow> GeoPoint option \<Rightarrow> bool" where
  \<comment> \<open>A location prop is \<open>null\<close> or a point of the given kind.\<close>
  "accepts ok location = (case location of None \<Rightarrow> True | Some p \<Rightarrow> ok p)"

inductive reachable :: "(GeoPoint \<Rightarrow> bool) \<Rightarrow> CompassState \<Rightarrow> bool"
  for ok :: "GeoPoint \<Rightarrow> bool" where
  \<comment> \<open>The states of a mounted component whose location props are points of the kind \<open>ok\<close>.\<close>
  mounted: "reachable ok (animationEffect initialState)"
| locations:
    "reachable ok s \<Longrightarrow> accepts ok busLocation \<Longrightarrow> accepts ok previousLocation
     \<Longrightarrow> reachable ok (newLocations busLocation previousLocation s)"
| frame: "reachable ok s \<Longrightarrow> framePending s \<Longrightarrow> reachable ok (step s)"

definition anyPoint :: "GeoPoint \<Rightarrow> bool" where
  "anyPoint p = True"

definition validPoint :: "GeoPoint \<Rightarrow> bool" where
  \<comment> \<open>The documented precondition: a latitude within 90 and a longitude within 180 degrees.\<close>
  "validPoint p \<longleftrightarrow> \<bar>lat p\<bar> \<le> 90 \<and> \<bar>lng p\<bar> \<le> 180"

definition safePoint :: "GeoPoint \<Rightarrow> bool" where
  \<comment> \<open>A point whose coordinates are small enough for the products with \<open>Math.PI\<close> in
      \<open>calculateBearing\<close>, also of a difference of two longitudes, not to overflow.\<close>
  "safePoint p \<longleftrightarrow> \<bar>lat p * pi\<bar> < overflowAt \<and> \<bar>2 * lng p * pi\<bar> < overflowAt"

definition inRange :: "jsnum \<Rightarrow> bool" where
  \<comment> \<open>A bearing in degrees: a finite number in the half-open range from 0 to 360.\<close>
  "inRange a = (case a of Num x \<Rightarrow> 0 \<le> x \<and> x < 360 | _ \<Rightarrow> False)"

definition deltaValue :: "real \<Rightarrow> real \<Rightarrow> real" where
  \<comment> \<open>The value of \<open>shortestDelta\<close> on finite angles, used in the proofs.\<close>
  "deltaValue t c = jsmod (t - c + 540) 360 - 180"

definition easedValue :: "real \<Rightarrow> real \<Rightarrow> real" where
  \<comment> \<open>The value of \<open>easedAngle\<close> on finite angles, used in the proofs.\<close>
  "easedValue c d = jsmod (c + d * (18 / 100) + 360) 360"

section \<open>Finite results\<close>

lemma overflowAt_large: "1000000 < overflowAt"
  by (simp add: overflowAt_def)

lemma overflowAt_below: "overflowAt < 2 * 10 ^ 308"
  by (simp add: overflowAt_def)

lemma fromReal_Num:
  assumes "\<bar>x\<bar> < overflowAt"
  shows "fromReal x = Num x"
proof -
  have "\<not> overflowAt \<le> x" and "\<not> x \<le> - overflowAt" using assms by linarith+
  then show ?thesis by (simp add: fromReal_def)
qed

lemma fromReal_small: "\<bar>x\<bar> \<le> 1000000 \<Longrightarrow> fromReal x = Num x"
  using overflowAt_large by (intro fromReal_Num) linarith

lemma jsAdd_Num: "\<bar>a + b\<bar> \<le> 1000000 \<Longrightarrow> jsAdd (Num a) (Num b) = Num (a + b)"
  by (simp add: fromReal_small)

lemma jsSub_Num: "\<bar>a - b\<bar> \<le> 1000000 \<Longrightarrow> jsSub (Num a) (Num b) = Num (a - b)"
  by (simp add: jsSub_def fromReal_small)

lemma jsMul_Num: "\<bar>a * b\<bar> \<le> 1000000 \<Longrightarrow> jsMul (Num a) (Num b) = Num (a * b)"
  by (simp add: fromReal_small)

lemma jsDiv_Num: "b \<noteq> 0 \<Longrightarrow> \<bar>a / b\<bar> \<le> 1000000 \<Longrightarrow> jsDiv (Num a) (Num b) = Num (a / b)"
  by (simp add: fromReal_small)

lemma inRange_Num: "inRange (Num x) \<longleftrightarrow> 0 \<le> x \<and> x < 360"
  by (simp add: inRange_def)

lemma inRangeE:
  assumes "inRange a"
  obtains x where "a = Num x" and "0 \<le> x" and "x < 360"
  using assms by (cases a) (simp_all add: inRange_def)

section \<open>Properties of the remainder\<close>

lemma jsmod_nonneg_bounds:
  assumes "0 \<le> a" and "0 < b"
  shows "0 \<le> jsmod a b" and "jsmod a b < b"
proof -
  have q: "0 \<le> a / b" using assms by simp
  have eq: "jsmod a b = a - b * of_int \<lfloor>a / b\<rfloor>"
    using q by (simp add: jsmod_def jsTrunc_def)
  have "b * of_int \<lfloor>a / b\<rfloor> \<le> b * (a / b)"
    using assms(2) by (intro mult_left_mono) simp_all
  then have "b * of_int \<lfloor>a / b\<rfloor> \<le> a" using assms(2) by simp
  then show "0 \<le> jsmod a b" using eq by simp
  have "a / b < of_int \<lfloor>a / b\<rfloor> + 1" by linarith
  then have "b * (a / b) < b * (of_int \<lfloor>a / b\<rfloor> + 1)"
    using assms(2) by (intro mult_strict_left_mono) simp_all
  then have "a < b * (of_int \<lfloor>a / b\<rfloor> + 1)" using assms(2) by simp
  then show "jsmod a b < b" using eq by (simp add: algebra_simps)
qed

lemma jsmod_unique:
  assumes "0 \<le> r" and "r < b" and "0 \<le> k"
  shows "jsmod (r + b * of_int k) b = r"
proof -
  have b: "0 < b" using assms by simp
  have split: "(r + b * of_int k) / b = r / b + of_int k"
    using b by (simp add: add_divide_distrib)
  have "0 \<le> r / b" and "r / b < 1" using assms b by simp_all
  then have fl: "\<lfloor>r / b + of_int k\<rfloor> = k" by (intro floor_unique) simp_all
  have "0 \<le> r / b + of_int k" using \<open>0 \<le> r / b\<close> assms(3) by simp
  then show ?thesis
    by (simp add: jsmod_def jsTrunc_def split fl)
qed

lemma jsmod_decompose:
  assumes "0 \<le> a" and "0 < b"
  shows "\<exists>k\<ge>0. a = jsmod a b + b * of_int k"
proof -
  have q: "0 \<le> a / b" using assms by simp
  have "jsmod a b = a - b * of_int \<lfloor>a / b\<rfloor>"
    using q by (simp add: jsmod_def jsTrunc_def)
  moreover have "0 \<le> \<lfloor>a / b\<rfloor>" using q by simp
  ultimately show ?thesis by (intro exI [of _ "\<lfloor>a / b\<rfloor>"]) simp
qed

lemma jsmod_small:
  assumes "\<bar>a\<bar> < b"
  shows "jsmod a b = a"
proof -
  have b: "0 < b" using assms by linarith
  have lo: "- 1 < a / b" and hi: "a / b < 1"
    using assms b by (simp_all add: pos_less_divide_eq pos_divide_less_eq)
  have "jsTrunc (a / b) = 0"
  proof (cases "0 \<le> a / b")
    case True
    have "\<lfloor>a / b\<rfloor> = 0" using True hi by (intro floor_unique) simp_all
    then show ?thesis using True by (simp add: jsTrunc_def)
  next
    case False
    have "\<lceil>a / b\<rceil> = 0" using False lo by (intro ceiling_unique) simp_all
    then show ?thesis using False by (simp add: jsTrunc_def)
  qed
  then show ?thesis by (simp add: jsmod_def)
qed

lemma jsTrunc_minus: "jsTrunc (- x) = - jsTrunc x"
proof -
  consider "x = 0" | "0 < x" | "x < 0" by linarith
  then show ?thesis
  proof cases
    case 1
    then show ?thesis by (simp add: jsTrunc_def)
  next
    case 2
    then have "jsTrunc (- x) = \<lceil>- x\<rceil>" and "jsTrunc x = \<lfloor>x\<rfloor>"
      by (simp_all add: jsTrunc_def)
    then show ?thesis by (simp add: ceiling_minus)
  next
    case 3
    then have "jsTrunc (- x) = \<lfloor>- x\<rfloor>" and "jsTrunc x = \<lceil>x\<rceil>"
      by (simp_all add: jsTrunc_def)
    then show ?thesis by (simp add: floor_minus)
  qed
qed

lemma jsmod_minus: "jsmod (- a) b = - jsmod a b"
proof -
  have "jsTrunc (- a / b) = - jsTrunc (a / b)"
    using jsTrunc_minus [of "a / b"] by simp
  then show ?thesis by (simp add: jsmod_def algebra_simps)
qed

lemma jsmod_abs_less:
  assumes "0 < b"
  shows "\<bar>jsmod a b\<bar> < b"
proof (cases "0 \<le> a")
  case True
  from jsmod_nonneg_bounds [OF this assms] show ?thesis by simp
next
  case False
  then have "0 \<le> - a" by simp
  from jsmod_nonneg_bounds [OF this assms] show ?thesis by (simp add: jsmod_minus)
qed

section \<open>The shortest angular distance and the eased angle on finite angles\<close>

lemma deltaValue_abs: "\<bar>deltaValue t c\<bar> < 540"
  using jsmod_abs_less [of 360 "t - c + 540"] by (simp add: deltaValue_def)

lemma shortestDelta_Num:
  assumes "\<bar>t - c\<bar> \<le> 100000"
  shows "shortestDelta (Num t) (Num c) = Num (deltaValue t c)"
proof -
  have a: "jsSub (Num t) (Num c) = Num (t - c)"
    using assms by (intro jsSub_Num) simp
  have b: "jsAdd (Num (t - c)) (Num 540) = Num (t - c + 540)"
    using assms by (intro jsAdd_Num) simp
  have c: "jsRem (Num (t - c + 540)) (Num 360) = Num (jsmod (t - c + 540) 360)" by simp
  have "\<bar>jsmod (t - c + 540) 360 - 180\<bar> \<le> 1000000"
    using jsmod_abs_less [of 360 "t - c + 540"] by simp
  then have d: "jsSub (Num (jsmod (t - c + 540) 360)) (Num 180)
      = Num (jsmod (t - c + 540) 360 - 180)"
    by (rule jsSub_Num)
  show ?thesis by (simp only: shortestDelta_def deltaValue_def a b c d)
qed

lemma easedAngle_Num:
  assumes "\<bar>c\<bar> \<le> 100000" and "\<bar>d\<bar> \<le> 100000"
  shows "easedAngle (Num c) (Num d) = Num (easedValue c d)"
proof -
  have a: "jsMul (Num d) (Num (18 / 100)) = Num (d * (18 / 100))"
    using assms(2) by (intro jsMul_Num) simp
  have b: "jsAdd (Num c) (Num (d * (18 / 100))) = Num (c + d * (18 / 100))"
    using assms by (intro jsAdd_Num) simp
  have c: "jsAdd (Num (c + d * (18 / 100))) (Num 360) = Num (c + d * (18 / 100) + 360)"
    using assms by (intro jsAdd_Num) simp
  have d: "jsRem (Num (c + d * (18 / 100) + 360)) (Num 360)
      = Num (jsmod (c + d * (18 / 100) + 360) 360)" by simp
  show ?thesis by (simp only: easedAngle_def easedValue_def a b c d)
qed

lemma deltaValue_bounds:
  assumes "inRange (Num c)" and "inRange (Num t)"
  shows "- 180 \<le> deltaValue t c" and "deltaValue t c < 180"
proof -
  have "0 \<le> t - c + 540" using assms by (simp add: inRange_Num)
  from jsmod_nonneg_bounds [OF this, of 360]
  show "- 180 \<le> deltaValue t c" and "deltaValue t c < 180"
    by (simp_all add: deltaValue_def)
qed

lemma easedValue_inRange:
  assumes "inRange (Num c)" and "inRange (Num t)"
  shows "inRange (Num (easedValue c (deltaValue t c)))"
proof -
  have "0 \<le> c + deltaValue t c * (18 / 100) + 360"
    using assms(1) deltaValue_bounds(1) [OF assms] by (simp add: inRange_Num)
  from jsmod_nonneg_bounds [OF this, of 360] show ?thesis
    by (simp add: inRange_Num easedValue_def)
qed

lemma ease_delta:
  assumes "inRange (Num c)" and "inRange (Num t)"
  shows "deltaValue t (easedValue c (deltaValue t c)) = (82 / 100) * deltaValue t c"
proof -
  define d where "d = deltaValue t c"
  define e where "e = easedValue c d"
  have dlo: "- 180 \<le> d" and dhi: "d < 180"
    using deltaValue_bounds [OF assms] by (simp_all add: d_def)
  have "0 \<le> t - c + 540" using assms by (simp add: inRange_Num)
  from jsmod_decompose [OF this, of 360]
  obtain k where k: "0 \<le> k" "t - c + 540 = (d + 180) + 360 * of_int k"
    by (auto simp: d_def deltaValue_def)
  have "0 \<le> c + d * (18 / 100) + 360"
    using assms(1) dlo by (simp add: inRange_Num)
  from jsmod_decompose [OF this, of 360]
  obtain j where j: "0 \<le> j" "c + d * (18 / 100) + 360 = e + 360 * of_int j"
    by (auto simp: e_def easedValue_def)
  have erange: "0 \<le> e" "e < 360"
    using easedValue_inRange [OF assms] by (simp_all add: e_def d_def inRange_Num)
  define r where "r = (82 / 100) * d + 180"
  have r: "0 \<le> r" "r < 360" using dlo dhi by (simp_all add: r_def)
  define m where "m = k + j - 1"
  have eq: "t - e + 540 = r + 360 * of_int m"
    using k(2) j(2) by (simp add: r_def m_def)
  have "0 \<le> t - e + 540" using erange assms(2) by (simp add: inRange_Num)
  then have "0 \<le> r + 360 * real_of_int m" using eq by simp
  then have "- 1 < real_of_int m" using r(2) by linarith
  then have "0 \<le> m" by linarith
  from jsmod_unique [OF r this] have "jsmod (t - e + 540) 360 = r"
    using eq by simp
  then show ?thesis by (simp add: deltaValue_def r_def e_def d_def)
qed

section \<open>The direction table\<close>

lemma length_directions: "length directions = 16"
  by (simp add: directions_def)

lemma jsIndex_nat: "i < length xs \<Longrightarrow> jsIndex xs (Num (real i)) = Some (xs ! i)"
  by simp

lemma jsmod_16:
  assumes "0 \<le> n" and "n \<le> 16"
  shows "jsmod (of_int n) 16 = of_int (n mod 16)"
proof (cases "n = 16")
  case True
  then show ?thesis by (simp add: jsmod_def jsTrunc_def)
next
  case False
  then have "n < 16" using assms(2) by simp
  then have "\<bar>real_of_int n\<bar> < 16" using assms(1) by simp
  from jsmod_small [OF this] show ?thesis using assms(1) \<open>n < 16\<close> by simp
qed

lemma jsRound_sector:
  assumes "inRange (Num b)"
  shows "0 \<le> jsRound (b / (45 / 2))" and "jsRound (b / (45 / 2)) \<le> 16"
proof -
  have lo: "0 \<le> b / (45 / 2) + 1 / 2" and hi: "b / (45 / 2) + 1 / 2 < 17"
    using assms by (simp_all add: inRange_Num)
  show "0 \<le> jsRound (b / (45 / 2))"
    unfolding jsRound_def using lo by (simp only: zero_le_floor)
  have "\<lfloor>b / (45 / 2) + 1 / 2\<rfloor> < 17"
    using hi by (simp only: floor_less_iff of_int_numeral)
  then show "jsRound (b / (45 / 2)) \<le> 16"
    unfolding jsRound_def by linarith
qed

lemma directionIndex_sector:
  assumes "inRange (Num b)"
  shows "directionIndex (Num b) = Num (real (nat (jsRound (b / (45 / 2)) mod 16)))"
proof -
  have "\<bar>b / (45 / 2)\<bar> \<le> 1000000" using assms by (simp add: inRange_Num)
  then have q: "jsDiv (Num b) (Num (45 / 2)) = Num (b / (45 / 2))"
    by (intro jsDiv_Num) simp_all
  have "jsmod (of_int (jsRound (b / (45 / 2)))) 16 = of_int (jsRound (b / (45 / 2)) mod 16)"
    using jsRound_sector [OF assms] by (rule jsmod_16)
  also have "\<dots> = real (nat (jsRound (b / (45 / 2)) mod 16))" by simp
  finally have m: "jsmod (of_int (jsRound (b / (45 / 2)))) 16
      = real (nat (jsRound (b / (45 / 2)) mod 16))" .
  have r: "jsRem (Num (of_int (jsRound (b / (45 / 2))))) (Num 16)
      = Num (jsmod (of_int (jsRound (b / (45 / 2)))) 16)" by simp
  show ?thesis by (simp only: directionIndex_def q Math_round.simps r m)
qed

lemma bearingToDirection_sector:
  assumes "inRange (Num b)"
  shows "bearingToDirection (Num b) = Some (directions ! nat (jsRound (b / (45 / 2)) mod 16))"
proof -
  have "nat (jsRound (b / (45 / 2)) mod 16) < length directions"
    by (simp add: length_directions nat_less_iff)
  from jsIndex_nat [OF this] show ?thesis
    by (simp only: bearingToDirection_def directionIndex_sector [OF assms])
qed

lemma jsRound_half: "jsRound (real k + 1 / 2) = int k + 1"
proof -
  have "real k + 1 / 2 + 1 / 2 = of_int (int k + 1)" by simp
  then show ?thesis unfolding jsRound_def by (simp only: floor_of_int)
qed

lemma bearingToDirection_north: "bearingToDirection (Num 0) = Some ''N''"
  by (simp add: bearingToDirection_def directionIndex_def jsRound_def jsmod_def jsTrunc_def
      fromReal_small directions_def)

section \<open>The range of the bearing\<close>

lemma atan2_bounds: "- pi < atan2 y x" "atan2 y x \<le> pi"
proof -
  have a: "- (pi / 2) < arctan (y / x)" "arctan (y / x) < pi / 2"
    using arctan_bounded [of "y / x"] by simp_all
  have p: "0 < pi" by simp
  consider "0 < x" | "x < 0" "0 \<le> y" | "x < 0" "y < 0" | "x = 0"
    by linarith
  then have "- pi < atan2 y x \<and> atan2 y x \<le> pi"
  proof cases
    case 1
    then show ?thesis using a p by (simp add: atan2_def)
  next
    case 2
    then have "y / x \<le> 0" by (simp add: divide_nonneg_neg)
    then have "arctan (y / x) \<le> 0" by (simp only: arctan_le_zero_iff)
    then show ?thesis using 2 a p by (simp add: atan2_def)
  next
    case 3
    then have "0 < y / x" by (simp add: divide_neg_neg)
    then have "0 < arctan (y / x)" by (simp only: zero_less_arctan_iff)
    then show ?thesis using 3 a p by (simp add: atan2_def)
  next
    case 4
    then have "atan2 y x = pi / 2 \<or> atan2 y x = - (pi / 2) \<or> atan2 y x = 0"
      by (simp add: atan2_def)
    then show ?thesis using p by linarith
  qed
  then show "- pi < atan2 y x" "atan2 y x \<le> pi" by simp_all
qed

lemma to_degrees_bounds:
  assumes "- pi < a" and "a \<le> pi"
  shows "- 180 < a * 180 / pi" and "a * 180 / pi \<le> 180"
  using assms by (simp_all add: field_simps)

lemma atan2_degrees:
  "jsDiv (jsMul (Math_atan2 (Num y) (Num x)) (Num 180)) Math_PI = Num (atan2 y x * 180 / pi)"
proof -
  have b: "- pi < atan2 y x" "atan2 y x \<le> pi" by (rule atan2_bounds)+
  have "\<bar>atan2 y x * 180\<bar> \<le> 1000000" using b pi_less_4 by simp
  then have m: "jsMul (Num (atan2 y x)) (Num 180) = Num (atan2 y x * 180)"
    by (rule jsMul_Num)
  have "\<bar>atan2 y x * 180 / pi\<bar> \<le> 1000000"
    using to_degrees_bounds [OF b] by simp
  then have d: "jsDiv (Num (atan2 y x * 180)) (Num pi) = Num (atan2 y x * 180 / pi)"
    by (intro jsDiv_Num) simp_all
  show ?thesis by (simp only: Math_atan2.simps Math_PI_def m d)
qed

lemma normalize_value:
  assumes "- 180 \<le> b" and "b \<le> 180"
  shows "jsRem (jsAdd (Num b) (Num 360)) (Num 360) = Num (jsmod (b + 360) 360)"
proof -
  have "jsAdd (Num b) (Num 360) = Num (b + 360)" using assms by (intro jsAdd_Num) simp
  then show ?thesis by simp
qed

lemma normalize_inRange:
  assumes "- 180 \<le> b" and "b \<le> 180"
  shows "inRange (jsRem (jsAdd (Num b) (Num 360)) (Num 360))"
proof -
  have "0 \<le> b + 360" using assms by simp
  from jsmod_nonneg_bounds [OF this, of 360]
  have "inRange (Num (jsmod (b + 360) 360))" by (simp add: inRange_Num)
  then show ?thesis by (simp only: normalize_value [OF assms])
qed


lemma to_radians:
  assumes "\<bar>a * pi\<bar> < overflowAt"
  shows "jsDiv (jsMul (Num a) Math_PI) (Num 180) = Num (a * pi / 180)"
proof -
  have m: "jsMul (Num a) Math_PI = Num (a * pi)"
    using fromReal_Num [OF assms] by (simp add: Math_PI_def)
  have "\<bar>a * pi / 180\<bar> \<le> \<bar>a * pi\<bar>" by simp
  then have "\<bar>a * pi / 180\<bar> < overflowAt" using assms by linarith
  from fromReal_Num [OF this] show ?thesis by (simp add: m)
qed

lemma trig_product: "\<bar>u\<bar> \<le> 1 \<Longrightarrow> \<bar>v\<bar> \<le> 1 \<Longrightarrow> \<bar>u * v\<bar> \<le> (1::real)"
  by (simp add: abs_mult mult_le_one)

lemma calculateBearing_value:
  fixes s e :: GeoPoint
  defines "lat1 \<equiv> lat s * pi / 180"
    and "lat2 \<equiv> lat e * pi / 180"
    and "dLng \<equiv> (lng e - lng s) * pi / 180"
  defines "y \<equiv> sin dLng * cos lat2"
    and "x \<equiv> cos lat1 * sin lat2 - sin lat1 * cos lat2 * cos dLng"
  assumes "\<bar>lat s * pi\<bar> < overflowAt" and "\<bar>lat e * pi\<bar> < overflowAt"
    and "\<bar>(lng e - lng s) * pi\<bar> < overflowAt"
    and "\<not> (lat s = lat e \<and> lng s = lng e)"
  shows "calculateBearing (Some s) (Some e) = Num (jsmod (atan2 y x * 180 / pi + 360) 360)"
proof -
  have r1: "jsDiv (jsMul (Num (lat s)) Math_PI) (Num 180) = Num lat1"
    unfolding lat1_def using assms(6) by (rule to_radians)
  have r2: "jsDiv (jsMul (Num (lat e)) Math_PI) (Num 180) = Num lat2"
    unfolding lat2_def using assms(7) by (rule to_radians)
  have "\<bar>lng e - lng s\<bar> * 1 \<le> \<bar>lng e - lng s\<bar> * pi"
    using pi_ge_two by (intro mult_left_mono) simp_all
  then have "\<bar>lng e - lng s\<bar> < overflowAt" using assms(8) by (simp add: abs_mult)
  from fromReal_Num [OF this]
  have d: "jsSub (Num (lng e)) (Num (lng s)) = Num (lng e - lng s)"
    by (simp add: jsSub_def)
  have r3: "jsDiv (jsMul (jsSub (Num (lng e)) (Num (lng s))) Math_PI) (Num 180) = Num dLng"
    unfolding dLng_def d using assms(8) by (rule to_radians)
  have "\<bar>sin dLng * cos lat2\<bar> \<le> 1" by (intro trig_product) simp_all
  then have ym: "jsMul (Num (sin dLng)) (Num (cos lat2)) = Num y"
    unfolding y_def by (intro jsMul_Num) simp
  have a1: "\<bar>cos lat1 * sin lat2\<bar> \<le> 1" by (intro trig_product) simp_all
  then have x1: "jsMul (Num (cos lat1)) (Num (sin lat2)) = Num (cos lat1 * sin lat2)"
    by (intro jsMul_Num) simp
  have a2: "\<bar>sin lat1 * cos lat2\<bar> \<le> 1" by (intro trig_product) simp_all
  then have x2: "jsMul (Num (sin lat1)) (Num (cos lat2)) = Num (sin lat1 * cos lat2)"
    by (intro jsMul_Num) simp
  have a3: "\<bar>sin lat1 * cos lat2 * cos dLng\<bar> \<le> 1" using a2 by (intro trig_product) simp_all
  then have x3: "jsMul (Num (sin lat1 * cos lat2)) (Num (cos dLng))
      = Num (sin lat1 * cos lat2 * cos dLng)"
    by (intro jsMul_Num) simp
  have "\<bar>cos lat1 * sin lat2 - sin lat1 * cos lat2 * cos dLng\<bar> \<le> 1000000"
    using a1 a3 by linarith
  then have xm: "jsSub (Num (cos lat1 * sin lat2)) (Num (sin lat1 * cos lat2 * cos dLng)) = Num x"
    unfolding x_def by (rule jsSub_Num)
  have b: "- 180 \<le> atan2 y x * 180 / pi" "atan2 y x * 180 / pi \<le> 180"
    using to_degrees_bounds [OF atan2_bounds, of y x] by simp_all
  have "calculateBearing (Some s) (Some e)
      = jsRem (jsAdd (jsDiv (jsMul (Math_atan2 (Num y) (Num x)) (Num 180)) Math_PI) (Num 360))
          (Num 360)"
    by (simp only: calculateBearing_def option.case if_not_P [OF assms(9)] Let_def r1 r2 r3
        Math_sin.simps Math_cos.simps ym x1 x2 x3 xm)
  also have "\<dots> = Num (jsmod (atan2 y x * 180 / pi + 360) 360)"
    by (simp only: atan2_degrees normalize_value [OF b])
  finally show ?thesis .
qed

lemma calculateBearing_points_inRange:
  assumes "\<bar>lat s * pi\<bar> < overflowAt" and "\<bar>lat e * pi\<bar> < overflowAt"
    and "\<bar>(lng e - lng s) * pi\<bar> < overflowAt"
  shows "inRange (calculateBearing (Some s) (Some e))"
proof (cases "lat s = lat e \<and> lng s = lng e")
  case True
  then show ?thesis by (simp add: calculateBearing_def inRange_Num)
next
  case False
  define y where "y = sin ((lng e - lng s) * pi / 180) * cos (lat e * pi / 180)"
  define x where "x = cos (lat s * pi / 180) * sin (lat e * pi / 180)
    - sin (lat s * pi / 180) * cos (lat e * pi / 180) * cos ((lng e - lng s) * pi / 180)"
  have eq: "calculateBearing (Some s) (Some e) = Num (jsmod (atan2 y x * 180 / pi + 360) 360)"
    unfolding x_def y_def using assms False by (rule calculateBearing_value)
  have b: "- 180 \<le> atan2 y x * 180 / pi" "atan2 y x * 180 / pi \<le> 180"
    using to_degrees_bounds [OF atan2_bounds, of y x] by simp_all
  from normalize_inRange [OF b] show ?thesis by (simp only: eq normalize_value [OF b])
qed

lemma safePoint_difference:
  assumes "safePoint p" and "safePoint q"
  shows "\<bar>(lng q - lng p) * pi\<bar> < overflowAt"
proof -
  have "\<bar>2 * lng p * pi\<bar> < overflowAt" and "\<bar>2 * lng q * pi\<bar> < overflowAt"
    using assms by (simp_all add: safePoint_def)
  then have "2 * \<bar>lng p * pi\<bar> < overflowAt" and "2 * \<bar>lng q * pi\<bar> < overflowAt"
    by (simp_all add: abs_mult mult.assoc)
  moreover have "\<bar>(lng q - lng p) * pi\<bar> \<le> \<bar>lng q * pi\<bar> + \<bar>lng p * pi\<bar>"
    by (simp add: left_diff_distrib) 
  ultimately show ?thesis by linarith
qed

lemma calculateBearing_safe_inRange:
  assumes "accepts safePoint start" and "accepts safePoint finish"
  shows "inRange (calculateBearing start finish)"
proof (cases start)
  case None
  then show ?thesis by (simp add: calculateBearing_def inRange_Num)
next
  case (Some s)
  note start = this
  show ?thesis
  proof (cases finish)
    case None
    then show ?thesis using start by (simp add: calculateBearing_def inRange_Num)
  next
    case (Some e)
    have s: "safePoint s" and e: "safePoint e"
      using assms start Some by (simp_all add: accepts_def)
    have "\<bar>lat s * pi\<bar> < overflowAt" "\<bar>lat e * pi\<bar> < overflowAt"
      using s e by (simp_all add: safePoint_def)
    then show ?thesis
      unfolding start Some using safePoint_difference [OF s e]
      by (rule calculateBearing_points_inRange)
  qed
qed

lemma validPoint_safe:
  assumes "validPoint p"
  shows "safePoint p"
proof -
  have l: "\<bar>lat p\<bar> \<le> 90" and g: "\<bar>lng p\<bar> \<le> 180" using assms by (simp_all add: validPoint_def)
  have "\<bar>lat p\<bar> * pi \<le> 90 * 4" using l pi_less_4 by (intro mult_mono) simp_all
  then have a: "\<bar>lat p * pi\<bar> < overflowAt" using overflowAt_large by (simp add: abs_mult)
  have "\<bar>lng p\<bar> * pi \<le> 180 * 4" using g pi_less_4 by (intro mult_mono) simp_all
  then have b: "\<bar>2 * lng p * pi\<bar> < overflowAt" using overflowAt_large by (simp add: abs_mult)
  show ?thesis using a b by (simp add: safePoint_def)
qed

lemma calculateBearing_overflow:
  "calculateBearing (Some \<lparr>lat = 10 ^ 308, lng = 0\<rparr>) (Some \<lparr>lat = 0, lng = 0\<rparr>) = NaN"
proof -
  define h :: real where "h = 10 ^ 308"
  have "2 * h \<le> h * pi" using pi_ge_two by (simp add: h_def)
  then have "overflowAt \<le> h * pi" using overflowAt_below by (simp add: h_def)
  then have big: "fromReal (h * pi) = PosInf" by (simp add: fromReal_def)
  have zero: "fromReal 0 = Num 0" by (simp add: fromReal_small)
  have "h \<noteq> 0" by (simp add: h_def)
  then have "calculateBearing (Some \<lparr>lat = h, lng = 0\<rparr>) (Some \<lparr>lat = 0, lng = 0\<rparr>) = NaN"
    by (simp add: calculateBearing_def Let_def Math_PI_def jsSub_def big zero)
  then show ?thesis by (simp only: h_def)
qed

lemma calculateBearing_east:
  "calculateBearing (Some \<lparr>lat = 0, lng = 0\<rparr>) (Some \<lparr>lat = 0, lng = 1\<rparr>) = Num 90"
proof -
  define s where "s = \<lparr>lat = 0, lng = 0\<rparr>"
  define e where "e = \<lparr>lat = 0, lng = 1\<rparr>"
  have "\<bar>pi\<bar> < overflowAt" using pi_less_4 overflowAt_large by simp
  then have h: "\<bar>lat s * pi\<bar> < overflowAt" "\<bar>lat e * pi\<bar> < overflowAt"
      "\<bar>(lng e - lng s) * pi\<bar> < overflowAt" "\<not> (lat s = lat e \<and> lng s = lng e)"
    using overflowAt_large by (simp_all add: s_def e_def)
  have "0 < pi / 180" and "pi / 180 < pi" by simp_all
  then have pos: "0 < sin (pi / 180)" by (rule sin_gt_zero)
  have quarter: "atan2 (sin (pi / 180)) 0 = pi / 2" using pos by (simp add: atan2_def)
  have deg: "atan2 (sin (pi / 180)) 0 * 180 / pi = 90" unfolding quarter by simp
  have rem: "jsmod (90 + 360) 360 = 90" by (simp add: jsmod_def jsTrunc_def)
  have "calculateBearing (Some s) (Some e)
      = Num (jsmod (atan2 (sin ((lng e - lng s) * pi / 180) * cos (lat e * pi / 180))
          (cos (lat s * pi / 180) * sin (lat e * pi / 180)
            - sin (lat s * pi / 180) * cos (lat e * pi / 180) * cos ((lng e - lng s) * pi / 180))
          * 180 / pi + 360) 360)"
    by (rule calculateBearing_value [OF h])
  moreover have "sin ((lng e - lng s) * pi / 180) * cos (lat e * pi / 180) = sin (pi / 180)"
    by (simp add: s_def e_def)
  moreover have "cos (lat s * pi / 180) * sin (lat e * pi / 180)
      - sin (lat s * pi / 180) * cos (lat e * pi / 180) * cos ((lng e - lng s) * pi / 180) = 0"
    by (simp add: s_def e_def)
  ultimately have "calculateBearing (Some s) (Some e) = Num 90"
    by (simp only: deg rem)
  then show ?thesis by (simp only: s_def e_def)
qed

section \<open>The tick\<close>

lemma step_degrees: "degrees (step s) = degrees s"
  by (simp add: step_def Let_def)

lemma step_direction: "direction (step s) = direction s"
  by (simp add: step_def Let_def)

lemma step_at_rest:
  assumes "\<not> framePending (step s)"
  shows "animatedDeg (step s) = degrees s" and "animRef (step s) = degrees s"
  using assms by (simp_all add: step_def Let_def split: if_splits)

lemma step_snap:
  assumes "animRef s = Num c" and "degrees s = Num t" and "\<bar>t - c\<bar> \<le> 100000"
    and "\<bar>deltaValue t c\<bar> < 3 / 10"
  shows "step s = s\<lparr>animRef := Num t, animatedDeg := Num t, framePending := False\<rparr>"
proof -
  have d: "shortestDelta (Num t) (Num c) = Num (deltaValue t c)"
    using assms(3) by (rule shortestDelta_Num)
  show ?thesis using assms(4) by (simp add: step_def Let_def assms(1,2) d)
qed

lemma step_ease:
  assumes "animRef s = Num c" and "degrees s = Num t" and "\<bar>t - c\<bar> \<le> 100000"
    and "\<bar>c\<bar> \<le> 100000" and "\<not> \<bar>deltaValue t c\<bar> < 3 / 10"
  shows "step s = s\<lparr>animRef := Num (easedValue c (deltaValue t c)),
    animatedDeg := Num (easedValue c (deltaValue t c)), framePending := True\<rparr>"
proof -
  have d: "shortestDelta (Num t) (Num c) = Num (deltaValue t c)"
    using assms(3) by (rule shortestDelta_Num)
  have "\<bar>deltaValue t c\<bar> \<le> 100000" using deltaValue_abs [of t c] by simp
  with assms(4) have e: "easedAngle (Num c) (Num (deltaValue t c))
      = Num (easedValue c (deltaValue t c))"
    by (rule easedAngle_Num)
  show ?thesis using assms(5) by (simp add: step_def Let_def assms(1,2) d e)
qed

lemma inRange_moderate:
  assumes "inRange (Num c)" and "inRange (Num t)"
  shows "\<bar>t - c\<bar> \<le> 100000" and "\<bar>c\<bar> \<le> 100000"
  using assms by (auto simp: inRange_Num abs_le_iff)

lemma step_inRange:
  assumes "inRange (animRef s)" and "inRange (degrees s)"
  shows "inRange (animRef (step s))"
proof -
  from assms(1) obtain c where c: "animRef s = Num c" by (rule inRangeE)
  from assms(2) obtain t where t: "degrees s = Num t" by (rule inRangeE)
  have rc: "inRange (Num c)" and rt: "inRange (Num t)" using assms c t by simp_all
  show ?thesis
  proof (cases "\<bar>deltaValue t c\<bar> < 3 / 10")
    case True
    from step_snap [OF c t inRange_moderate(1) [OF rc rt] True]
    show ?thesis using rt by simp
  next
    case False
    from step_ease [OF c t inRange_moderate [OF rc rt] False]
    show ?thesis using easedValue_inRange [OF rc rt] by simp
  qed
qed

lemma eased_inRange:
  assumes "inRange current" and "inRange target"
  shows "inRange (easedAngle current (shortestDelta target current))"
proof -
  from assms(1) obtain c where c: "current = Num c" by (rule inRangeE)
  from assms(2) obtain t where t: "target = Num t" by (rule inRangeE)
  have rc: "inRange (Num c)" and rt: "inRange (Num t)" using assms c t by simp_all
  have d: "shortestDelta (Num t) (Num c) = Num (deltaValue t c)"
    using inRange_moderate(1) [OF rc rt] by (rule shortestDelta_Num)
  have "\<bar>deltaValue t c\<bar> \<le> 100000" using deltaValue_abs [of t c] by simp
  with inRange_moderate(2) [OF rc rt]
  have "easedAngle (Num c) (Num (deltaValue t c)) = Num (easedValue c (deltaValue t c))"
    by (rule easedAngle_Num)
  then show ?thesis using easedValue_inRange [OF rc rt] by (simp add: c t d)
qed

lemma step_idle:
  assumes "animRef s = Num a" and "degrees s = Num a"
  shows "step s = s\<lparr>animatedDeg := Num a, framePending := False\<rparr>"
proof -
  have "deltaValue a a = 0" by (simp add: deltaValue_def jsmod_def jsTrunc_def)
  then have "\<bar>deltaValue a a\<bar> < 3 / 10" by simp
  moreover have "\<bar>a - a\<bar> \<le> 100000" by simp
  ultimately have "step s = s\<lparr>animRef := Num a, animatedDeg := Num a, framePending := False\<rparr>"
    using assms by (intro step_snap)
  then show ?thesis using assms(1) by simp
qed

section \<open>The frame loop\<close>

lemma animate_within:
  assumes "animRef s = Num c" and "degrees s = Num t"
    and "inRange (Num c)" and "inRange (Num t)"
    and "\<bar>deltaValue t c\<bar> * (82 / 100) ^ n < 3 / 10"
  shows "\<exists>s'. animate (Suc n) s = Some s' \<and> animRef s' = Num t
    \<and> animatedDeg s' = Num t \<and> degrees s' = Num t \<and> \<not> framePending s'"
  using assms
proof (induction n arbitrary: s c)
  case 0
  then have "\<bar>deltaValue t c\<bar> < 3 / 10" by simp
  from step_snap [OF "0.prems"(1,2) inRange_moderate(1) [OF "0.prems"(3,4)] this]
  show ?case using "0.prems"(2) by simp
next
  case (Suc n)
  note mod = inRange_moderate [OF Suc.prems(3,4)]
  show ?case
  proof (cases "\<bar>deltaValue t c\<bar> < 3 / 10")
    case True
    from step_snap [OF Suc.prems(1,2) mod(1) this]
    show ?thesis using Suc.prems(2) by simp
  next
    case False
    define s1 where "s1 = step s"
    define c1 where "c1 = easedValue c (deltaValue t c)"
    have st: "s1 = s\<lparr>animRef := Num c1, animatedDeg := Num c1, framePending := True\<rparr>"
      unfolding s1_def c1_def using Suc.prems(1,2) mod False by (rule step_ease)
    have pending: "framePending s1" and cur: "animRef s1 = Num c1"
      and deg: "degrees s1 = Num t"
      using Suc.prems(2) by (simp_all add: st)
    have rng: "inRange (Num c1)"
      unfolding c1_def using Suc.prems(3,4) by (rule easedValue_inRange)
    have "deltaValue t c1 = (82 / 100) * deltaValue t c"
      unfolding c1_def using Suc.prems(3,4) by (rule ease_delta)
    then have "\<bar>deltaValue t c1\<bar> * (82 / 100) ^ n = \<bar>deltaValue t c\<bar> * (82 / 100) ^ Suc n"
      by (simp add: abs_mult)
    then have small: "\<bar>deltaValue t c1\<bar> * (82 / 100) ^ n < 3 / 10"
      using Suc.prems(5) by (simp only:)
    from Suc.IH [OF cur deg rng Suc.prems(4) small]
    obtain s' where s': "animate (Suc n) s1 = Some s'" "animRef s' = Num t"
      "animatedDeg s' = Num t" "degrees s' = Num t" "\<not> framePending s'"
      by blast
    have "animate (Suc (Suc n)) s = animate (Suc n) (step s)"
      using pending unfolding s1_def by (subst animate.simps(2)) (simp add: Let_def)
    then show ?thesis using s' by (simp only: s1_def) blast
  qed
qed

lemma ease_33_ticks: "180 * (82 / 100) ^ 33 < (3 / 10 :: real)"
  by (simp add: power_divide)

lemma animate_34:
  assumes "inRange (animRef s)" and "inRange (degrees s)"
  shows "\<exists>s'. animate 34 s = Some s' \<and> animRef s' = degrees s
    \<and> animatedDeg s' = degrees s \<and> degrees s' = degrees s \<and> \<not> framePending s'"
proof -
  from assms(1) obtain c where c: "animRef s = Num c" by (rule inRangeE)
  from assms(2) obtain t where t: "degrees s = Num t" by (rule inRangeE)
  have rc: "inRange (Num c)" and rt: "inRange (Num t)" using assms c t by simp_all
  have "\<bar>deltaValue t c\<bar> \<le> 180"
    using deltaValue_bounds [OF rc rt] by simp
  then have "\<bar>deltaValue t c\<bar> * (82 / 100) ^ 33 \<le> 180 * (82 / 100) ^ 33"
    by (intro mult_right_mono) simp_all
  then have "\<bar>deltaValue t c\<bar> * (82 / 100) ^ 33 < 3 / 10"
    using ease_33_ticks by linarith
  from animate_within [OF c t rc rt this]
  have "\<exists>s'. animate (Suc 33) s = Some s' \<and> animRef s' = degrees s
    \<and> animatedDeg s' = degrees s \<and> degrees s' = degrees s \<and> \<not> framePending s'"
    by (simp only: t)
  moreover have "(34::nat) = Suc 33" by simp
  ultimately show ?thesis by (simp only:)
qed

lemma animate_iterates:
  assumes "animate n s = Some s'"
  shows "\<exists>k. 0 < k \<and> k \<le> n \<and> s' = (step ^^ k) s"
  using assms
proof (induction n arbitrary: s)
  case 0
  then show ?case by simp
next
  case (Suc n)
  show ?case
  proof (cases "framePending (step s)")
    case True
    then have "animate n (step s) = Some s'" using Suc.prems by (simp add: Let_def)
    from Suc.IH [OF this] obtain k where k: "0 < k" "k \<le> n" "s' = (step ^^ k) (step s)"
      by blast
    have "(step ^^ k) (step s) = (step ^^ Suc k) s" by (simp only: funpow_Suc_right o_apply)
    then show ?thesis using k by (intro exI [of _ "Suc k"]) simp
  next
    case False
    then have "s' = step s" using Suc.prems by (simp add: Let_def)
    then show ?thesis by (intro exI [of _ "Suc 0"]) simp
  qed
qed

section \<open>The reachable states\<close>

lemma newLocations_animRef: "animRef (newLocations bus previous s) = animRef s"
  by (simp add: newLocations_def locationEffect_def animationEffect_def Let_def)

lemma newLocations_degrees:
  "degrees (newLocations bus previous s) = degrees s
   \<or> degrees (newLocations bus previous s) = calculateBearing previous bus"
  by (simp add: newLocations_def locationEffect_def animationEffect_def Let_def)

lemma newLocations_label:
  assumes "direction s = bearingToDirection (degrees s)"
  shows "direction (newLocations bus previous s)
    = bearingToDirection (degrees (newLocations bus previous s))"
  using assms by (simp add: newLocations_def locationEffect_def animationEffect_def Let_def)

lemma newLocations_at_rest:
  assumes "\<not> framePending (newLocations bus previous s)"
  shows "\<not> framePending s" and "degrees (newLocations bus previous s) = degrees s"
    and "animatedDeg (newLocations bus previous s) = animatedDeg s"
  using assms
  by (auto simp: newLocations_def locationEffect_def animationEffect_def Let_def
      split: if_splits)

lemma reachable_inRange:
  assumes "reachable safePoint s"
  shows "inRange (animRef s) \<and> inRange (degrees s)"
  using assms
proof (induction rule: reachable.induct)
  case mounted
  show ?case by (simp add: animationEffect_def initialState_def inRange_Num)
next
  case (locations s bus previous)
  have "inRange (calculateBearing previous bus)"
    using locations.hyps(3,2) by (rule calculateBearing_safe_inRange)
  then have "inRange (degrees (newLocations bus previous s))"
    using newLocations_degrees [of bus previous s] locations.IH by auto
  then show ?case using locations.IH by (simp add: newLocations_animRef)
next
  case (frame s)
  then show ?case by (simp add: step_inRange step_degrees)
qed

lemma reachable_label:
  assumes "reachable ok s"
  shows "direction s = bearingToDirection (degrees s)
    \<and> (\<not> framePending s \<longrightarrow> animatedDeg s = degrees s)"
  using assms
proof (induction rule: reachable.induct)
  case mounted
  show ?case
    using bearingToDirection_north by (simp add: animationEffect_def initialState_def)
next
  case (locations s bus previous)
  have "direction (newLocations bus previous s)
      = bearingToDirection (degrees (newLocations bus previous s))"
    using locations.IH by (intro newLocations_label) simp
  moreover have "animatedDeg (newLocations bus previous s) = degrees (newLocations bus previous s)"
    if "\<not> framePending (newLocations bus previous s)"
    using newLocations_at_rest [OF that] locations.IH by simp
  ultimately show ?case by blast
next
  case (frame s)
  have "direction (step s) = bearingToDirection (degrees (step s))"
    using frame.IH by (simp add: step_degrees step_direction)
  moreover have "animatedDeg (step s) = degrees (step s)" if "\<not> framePending (step s)"
    using step_at_rest(1) [OF that] by (simp add: step_degrees)
  ultimately show ?case by blast
qed

lemma reachable_overflow:
  "reachable anyPoint
     (step (newLocations (Some \<lparr>lat = 0, lng = 0\<rparr>) (Some \<lparr>lat = 10 ^ 308, lng = 0\<rparr>)
       (animationEffect initialState)))"
proof -
  have "reachable anyPoint (newLocations (Some \<lparr>lat = 0, lng = 0\<rparr>)
      (Some \<lparr>lat = 10 ^ 308, lng = 0\<rparr>) (animationEffect initialState))"
    by (intro reachable.locations reachable.mounted) (simp_all add: accepts_def anyPoint_def)
  moreover have "framePending (newLocations (Some \<lparr>lat = 0, lng = 0\<rparr>)
      (Some \<lparr>lat = 10 ^ 308, lng = 0\<rparr>) (animationEffect initialState))"
    by (simp add: newLocations_def locationEffect_def animationEffect_def Let_def)
  ultimately show ?thesis by (rule reachable.frame)
qed

lemma step_overflow:
  "animRef (step (newLocations (Some \<lparr>lat = 0, lng = 0\<rparr>) (Some \<lparr>lat = 10 ^ 308, lng = 0\<rparr>)
     (animationEffect initialState))) = NaN"
proof -
  have "degrees (newLocations (Some \<lparr>lat = 0, lng = 0\<rparr>) (Some \<lparr>lat = 10 ^ 308, lng = 0\<rparr>)
      (animationEffect initialState)) = NaN"
    by (simp only: newLocations_def locationEffect_def Let_def calculateBearing_overflow)
      (simp add: animationEffect_def initialState_def)
  moreover have "animRef (newLocations (Some \<lparr>lat = 0, lng = 0\<rparr>)
      (Some \<lparr>lat = 10 ^ 308, lng = 0\<rparr>) (animationEffect initialState)) = Num 0"
    by (simp add: newLocations_animRef animationEffect_def initialState_def)
  ultimately show ?thesis
    by (simp add: step_def Let_def shortestDelta_def easedAngle_def jsSub_def)
qed

lemma reachable_mono:
  assumes "reachable ok s" and "\<And>p. ok p \<Longrightarrow> ok' p"
  shows "reachable ok' s"
  using assms(1)
proof (induction rule: reachable.induct)
  case mounted
  show ?case by (rule reachable.mounted)
next
  case (locations s bus previous)
  have "accepts ok' bus" and "accepts ok' previous"
    using locations.hyps(2,3) assms(2) by (auto simp: accepts_def split: option.splits)
  with locations.IH show ?case by (rule reachable.locations)
next
  case (frame s)
  then show ?case by (intro reachable.frame)
qed

lemma bearingToDirection_east: "bearingToDirection (Num 90) = Some ''E''"
  by (simp add: bearingToDirection_def directionIndex_def jsRound_def jsmod_def jsTrunc_def
      fromReal_small directions_def)

lemma east_update:
  "newLocations (Some \<lparr>lat = 0, lng = 1\<rparr>) (Some \<lparr>lat = 0, lng = 0\<rparr>)
     (animationEffect initialState)
   = \<lparr>direction = Some ''E'', degrees = Num 90, animatedDeg = Num 0, animRef = Num 0,
      framePending = True\<rparr>"
  by (simp add: newLocations_def locationEffect_def Let_def calculateBearing_east
      bearingToDirection_east animationEffect_def initialState_def)

lemma east_reachable:
  "reachable validPoint (newLocations (Some \<lparr>lat = 0, lng = 1\<rparr>) (Some \<lparr>lat = 0, lng = 0\<rparr>)
     (animationEffect initialState))"
  by (intro reachable.locations reachable.mounted) (simp_all add: accepts_def validPoint_def)

lemma step_350_to_10:
  "step \<lparr>direction = Some ''N'', degrees = Num 10, animatedDeg = Num 350, animRef = Num 350,
         framePending = True\<rparr>
   = \<lparr>direction = Some ''N'', degrees = Num 10, animatedDeg = Num (1768 / 5),
      animRef = Num (1768 / 5), framePending = True\<rparr>"
proof -
  define s where "s = \<lparr>direction = Some ''N'', degrees = Num 10, animatedDeg = Num 350,
    animRef = Num 350, framePending = True\<rparr>"
  have c: "animRef s = Num 350" and t: "degrees s = Num 10" by (simp_all add: s_def)
  have d: "deltaValue 10 350 = 20" by (simp add: deltaValue_def jsmod_def jsTrunc_def)
  have e: "easedValue 350 20 = 1768 / 5" by (simp add: easedValue_def jsmod_def jsTrunc_def)
  have "step s = s\<lparr>animRef := Num (easedValue 350 (deltaValue 10 350)),
      animatedDeg := Num (easedValue 350 (deltaValue 10 350)), framePending := True\<rparr>"
    using c t by (rule step_ease) (simp_all add: d)
  then show ?thesis by (simp add: s_def d e)
qed

lemma step_after_east_update:
  "step (newLocations (Some \<lparr>lat = 0, lng = 1\<rparr>) (Some \<lparr>lat = 0, lng = 0\<rparr>)
     (animationEffect initialState))
   = \<lparr>direction = Some ''E'', degrees = Num 90, animatedDeg = Num (81 / 5),
      animRef = Num (81 / 5), framePending = True\<rparr>"
proof -
  define s where "s = \<lparr>direction = Some ''E'', degrees = Num 90, animatedDeg = Num 0,
    animRef = Num 0, framePending = True\<rparr>"
  have c: "animRef s = Num 0" and t: "degrees s = Num 90" by (simp_all add: s_def)
  have d: "deltaValue 90 0 = 90" by (simp add: deltaValue_def jsmod_def jsTrunc_def)
  have e: "easedValue 0 90 = 81 / 5" by (simp add: easedValue_def jsmod_def jsTrunc_def)
  have "step s = s\<lparr>animRef := Num (easedValue 0 (deltaValue 90 0)),
      animatedDeg := Num (easedValue 0 (deltaValue 90 0)), framePending := True\<rparr>"
    using c t by (rule step_ease) (simp_all add: d)
  then show ?thesis by (simp add: east_update s_def d e)
qed

section \<open>The claims\<close>




text \<open>
  Claim C2, as stated: for current and target angles in the range from 0 to 360 the delta
  lies in the interval open at -180 and closed at 180. It fails for the current angle 0 and
  the target 180, where the delta is -180.
\<close>

theorem delta_0_to_180_outside:
  "inRange (Num 0) \<and> inRange (Num 180)
   \<and> shortestDelta (Num 180) (Num 0) = Num (- 180)
   \<and> \<not> (jsLess (Num (- 180)) (shortestDelta (Num 180) (Num 0))
        \<and> \<not> jsLess (Num 180) (shortestDelta (Num 180) (Num 0)))"
proof -
  have "deltaValue 180 0 = - 180" by (simp add: deltaValue_def jsmod_def jsTrunc_def)
  moreover have "shortestDelta (Num 180) (Num 0) = Num (deltaValue 180 0)"
    by (rule shortestDelta_Num) simp
  ultimately have "shortestDelta (Num 180) (Num 0) = Num (- 180)" by simp
  then show ?thesis by (simp add: inRange_Num)
qed

text \<open>
  Claim C2, amended: for current and target angles in the range from 0 to 360 the delta lies
  in the interval closed at -180 and open at 180; for the current angle 0 and the target 180
  it is -180.
\<close>

theorem delta_range:
  assumes "inRange current" and "inRange target"
  shows "(\<exists>d. shortestDelta target current = Num d \<and> - 180 \<le> d \<and> d < 180)
         \<and> shortestDelta (Num 180) (Num 0) = Num (- 180)"
proof -
  from assms(1) obtain c where c: "current = Num c" by (rule inRangeE)
  from assms(2) obtain t where t: "target = Num t" by (rule inRangeE)
  have rc: "inRange (Num c)" and rt: "inRange (Num t)" using assms c t by simp_all
  have "shortestDelta target current = Num (deltaValue t c)"
    unfolding c t using inRange_moderate(1) [OF rc rt] by (rule shortestDelta_Num)
  then have range: "\<exists>d. shortestDelta target current = Num d \<and> - 180 \<le> d \<and> d < 180"
    using deltaValue_bounds [OF rc rt] by blast
  have "deltaValue 180 0 = - 180" by (simp add: deltaValue_def jsmod_def jsTrunc_def)
  moreover have "shortestDelta (Num 180) (Num 0) = Num (deltaValue 180 0)"
    by (rule shortestDelta_Num) simp
  ultimately have "shortestDelta (Num 180) (Num 0) = Num (- 180)" by simp
  with range show ?thesis by (intro conjI)
qed

theorem delta_range_witness:
  "inRange (Num 350) \<and> inRange (Num 10) \<and> shortestDelta (Num 10) (Num 350) = Num 20"
proof -
  have c: "inRange (Num 350)" and t: "inRange (Num 10)" by (simp_all add: inRange_Num)
  from delta_range [OF c t]
  obtain d where d: "shortestDelta (Num 10) (Num 350) = Num d" by blast
  have "shortestDelta (Num 10) (Num 350) = Num (deltaValue 10 350)"
    by (rule shortestDelta_Num) simp
  moreover have "deltaValue 10 350 = 20" by (simp add: deltaValue_def jsmod_def jsTrunc_def)
  ultimately have "d = 20" using d by simp
  then show ?thesis using c t d by simp
qed

text \<open>
  Claim C3. From the current angle 350 to the target 10 the signed delta of the tick is
  exactly 20, the short way through the boundary between 360 and 0, and not the naive
  difference of -340.
\<close>

theorem delta_350_to_10:
  "shortestDelta (Num 10) (Num 350) = Num 20 \<and> shortestDelta (Num 10) (Num 350) \<noteq> Num (- 340)"
proof -
  have "shortestDelta (Num 10) (Num 350) = Num (deltaValue 10 350)"
    by (rule shortestDelta_Num) simp
  moreover have "deltaValue 10 350 = 20" by (simp add: deltaValue_def jsmod_def jsTrunc_def)
  ultimately show ?thesis by simp
qed

text \<open>
  Claim C4. On the range from 0 to 360 \<open>bearingToDirection\<close> is total: the index
  \<open>round(bearing / 22.5) mod 16\<close> is one of the 16 positions of the table, so the read is
  never out of bounds and the result is the label at that position. The anchors 0, 90, 180
  and 270 map to N, E, S and W.
\<close>

theorem bearingToDirection_total:
  assumes "inRange bearing"
  shows "length directions = 16
    \<and> (\<exists>i. i < 16 \<and> directionIndex bearing = Num (real i)
           \<and> bearingToDirection bearing = Some (directions ! i))
    \<and> bearingToDirection (Num 0) = Some ''N'' \<and> bearingToDirection (Num 90) = Some ''E''
    \<and> bearingToDirection (Num 180) = Some ''S'' \<and> bearingToDirection (Num 270) = Some ''W''"
proof -
  from assms obtain b where b: "bearing = Num b" by (rule inRangeE)
  have rb: "inRange (Num b)" using assms b by simp
  define i where "i = nat (jsRound (b / (45 / 2)) mod 16)"
  have "i < 16" by (simp add: i_def nat_less_iff)
  moreover have "directionIndex bearing = Num (real i)"
    using directionIndex_sector [OF rb] by (simp only: i_def b)
  moreover have "bearingToDirection bearing = Some (directions ! i)"
    using bearingToDirection_sector [OF rb] by (simp only: i_def b)
  ultimately have ex: "\<exists>i. i < 16 \<and> directionIndex bearing = Num (real i)
      \<and> bearingToDirection bearing = Some (directions ! i)" by blast
  have anchors: "bearingToDirection (Num 0) = Some ''N''"
      "bearingToDirection (Num 90) = Some ''E''"
      "bearingToDirection (Num 180) = Some ''S''" "bearingToDirection (Num 270) = Some ''W''"
    by (simp_all add: bearingToDirection_def directionIndex_def jsRound_def jsmod_def
        jsTrunc_def fromReal_small directions_def)
  show ?thesis by (intro conjI length_directions ex anchors)
qed

theorem bearingToDirection_total_witness:
  "inRange (Num 100) \<and> directionIndex (Num 100) = Num 4
   \<and> bearingToDirection (Num 100) = Some ''E''"
proof -
  have h: "inRange (Num 100)" by (simp add: inRange_Num)
  have v: "directionIndex (Num 100) = Num 4"
    by (simp add: directionIndex_def jsRound_def jsmod_def jsTrunc_def fromReal_small)
  from bearingToDirection_total [OF h]
  obtain i where "directionIndex (Num 100) = Num (real i)"
    "bearingToDirection (Num 100) = Some (directions ! i)"
    by blast
  with v have "bearingToDirection (Num 100) = Some (directions ! 4)" by simp
  then show ?thesis using h v by (simp add: directions_def)
qed

text \<open>
  Claim C5. \<open>calculateBearing\<close> of a point and a point with the same coordinates is exactly
  0, and it is exactly 0 when either argument is null. The function is total, so these
  cases return a number and raise nothing.
\<close>

theorem calculateBearing_degenerate:
  "calculateBearing (Some p) (Some p) = Num 0
   \<and> calculateBearing (Some \<lparr>lat = a, lng = b\<rparr>) (Some \<lparr>lat = a, lng = b\<rparr>) = Num 0
   \<and> calculateBearing None finish = Num 0
   \<and> calculateBearing start None = Num 0"
  by (cases start) (simp_all add: calculateBearing_def)

text \<open>
  Claim C6. From every current angle and toward every fixed target, both in the range from 0
  to 360, the frame loop ends within 34 ticks: it returns a state whose current angle and
  displayed angle equal the target exactly and in which no frame is pending, and that state
  is the result of between 1 and 34 ticks.
\<close>

theorem animation_converges:
  assumes "inRange (animRef s)" and "inRange (degrees s)"
  shows "\<exists>s' k. animate 34 s = Some s' \<and> 0 < k \<and> k \<le> 34 \<and> s' = (step ^^ k) s
    \<and> animRef s' = degrees s \<and> animatedDeg s' = degrees s \<and> degrees s' = degrees s
    \<and> \<not> framePending s'"
proof -
  from animate_34 [OF assms]
  obtain s' where s': "animate 34 s = Some s'" "animRef s' = degrees s"
    "animatedDeg s' = degrees s" "degrees s' = degrees s" "\<not> framePending s'"
    by blast
  from animate_iterates [OF s'(1)]
  obtain k where "0 < k" "k \<le> 34" "s' = (step ^^ k) s" by blast
  then show ?thesis using s' by blast
qed

theorem animation_converges_witness:
  "inRange (Num 350) \<and> inRange (Num 10)
   \<and> (\<exists>s'. animate 34 \<lparr>direction = Some ''N'', degrees = Num 10, animatedDeg = Num 350,
                        animRef = Num 350, framePending = True\<rparr> = Some s'
          \<and> animRef s' = Num 10 \<and> \<not> framePending s')"
proof -
  define s where "s = \<lparr>direction = Some ''N'', degrees = Num 10, animatedDeg = Num 350,
    animRef = Num 350, framePending = True\<rparr>"
  have c: "inRange (animRef s)" and t: "inRange (degrees s)"
    by (simp_all add: s_def inRange_Num)
  from animation_converges [OF c t]
  have "\<exists>s'. animate 34 s = Some s' \<and> animRef s' = Num 10 \<and> \<not> framePending s'"
    by (auto simp: s_def)
  then show ?thesis using c t by (simp add: s_def)
qed

text \<open>
  Claim C7, as stated: after every update of the locations that recomputes the bearing, the
  label equals \<open>bearingToDirection\<close> of the displayed degrees value. The component displays
  \<open>animatedDeg\<close>, so it fails right after the first update of a mounted component to a
  bearing of 90: the label is E while the displayed angle is still 0, whose direction is N.
\<close>

theorem label_differs_from_needle:
  "reachable validPoint
     (newLocations (Some \<lparr>lat = 0, lng = 1\<rparr>) (Some \<lparr>lat = 0, lng = 0\<rparr>)
       (animationEffect initialState))
   \<and> direction (newLocations (Some \<lparr>lat = 0, lng = 1\<rparr>) (Some \<lparr>lat = 0, lng = 0\<rparr>)
       (animationEffect initialState)) = Some ''E''
   \<and> animatedDeg (newLocations (Some \<lparr>lat = 0, lng = 1\<rparr>) (Some \<lparr>lat = 0, lng = 0\<rparr>)
       (animationEffect initialState)) = Num 0
   \<and> Math_round (animatedDeg (newLocations (Some \<lparr>lat = 0, lng = 1\<rparr>)
       (Some \<lparr>lat = 0, lng = 0\<rparr>) (animationEffect initialState))) = Num 0
   \<and> bearingToDirection (animatedDeg (newLocations (Some \<lparr>lat = 0, lng = 1\<rparr>)
       (Some \<lparr>lat = 0, lng = 0\<rparr>) (animationEffect initialState))) = Some ''N''
   \<and> direction (newLocations (Some \<lparr>lat = 0, lng = 1\<rparr>) (Some \<lparr>lat = 0, lng = 0\<rparr>)
       (animationEffect initialState))
     \<noteq> bearingToDirection (animatedDeg (newLocations (Some \<lparr>lat = 0, lng = 1\<rparr>)
       (Some \<lparr>lat = 0, lng = 0\<rparr>) (animationEffect initialState)))"
proof -
  have "jsRound 0 = 0" by (simp add: jsRound_def)
  then show ?thesis
    using east_reachable by (simp add: east_update bearingToDirection_north)
qed

text \<open>
  Claim C7, amended: in every reachable state, so after every update of the locations, the
  label equals \<open>bearingToDirection\<close> of the target value \<open>degrees\<close>; an update that
  recomputes the bearing sets both from the same result of \<open>calculateBearing\<close>. The
  displayed angle \<open>animatedDeg\<close> equals \<open>degrees\<close>, and then agrees with the label, in
  every reachable state in which no frame is pending.
\<close>

theorem label_follows_target:
  assumes "reachable ok s"
  shows "direction s = bearingToDirection (degrees s)
    \<and> (\<not> framePending s \<longrightarrow>
          animatedDeg s = degrees s \<and> direction s = bearingToDirection (animatedDeg s))
    \<and> degrees (locationEffect (Some bus) (Some previous) s)
        = calculateBearing (Some previous) (Some bus)
    \<and> direction (locationEffect (Some bus) (Some previous) s)
        = bearingToDirection (calculateBearing (Some previous) (Some bus))"
proof -
  have a: "direction s = bearingToDirection (degrees s)"
    and b: "\<not> framePending s \<longrightarrow> animatedDeg s = degrees s"
    using reachable_label [OF assms] by simp_all
  have c: "\<not> framePending s \<longrightarrow>
      animatedDeg s = degrees s \<and> direction s = bearingToDirection (animatedDeg s)"
    using a b by simp
  have d: "degrees (locationEffect (Some bus) (Some previous) s)
      = calculateBearing (Some previous) (Some bus)"
    and e: "direction (locationEffect (Some bus) (Some previous) s)
      = bearingToDirection (calculateBearing (Some previous) (Some bus))"
    by (simp_all add: locationEffect_def Let_def)
  show ?thesis by (intro conjI a c d e)
qed

theorem label_follows_target_witness:
  "reachable validPoint
     (newLocations (Some \<lparr>lat = 0, lng = 1\<rparr>) (Some \<lparr>lat = 0, lng = 0\<rparr>)
       (animationEffect initialState))
   \<and> degrees (newLocations (Some \<lparr>lat = 0, lng = 1\<rparr>) (Some \<lparr>lat = 0, lng = 0\<rparr>)
       (animationEffect initialState)) = Num 90
   \<and> direction (newLocations (Some \<lparr>lat = 0, lng = 1\<rparr>) (Some \<lparr>lat = 0, lng = 0\<rparr>)
       (animationEffect initialState)) = bearingToDirection (Num 90)
   \<and> reachable validPoint (step (animationEffect initialState))
   \<and> \<not> framePending (step (animationEffect initialState))
   \<and> direction (step (animationEffect initialState))
     = bearingToDirection (animatedDeg (step (animationEffect initialState)))"
proof -
  define s where "s = newLocations (Some \<lparr>lat = 0, lng = 1\<rparr>) (Some \<lparr>lat = 0, lng = 0\<rparr>)
    (animationEffect initialState)"
  have r: "reachable validPoint s" unfolding s_def by (rule east_reachable)
  have d: "degrees s = Num 90" by (simp add: s_def east_update)
  from label_follows_target [OF r] have "direction s = bearingToDirection (degrees s)"
    by blast
  then have l: "direction s = bearingToDirection (Num 90)" by (simp only: d)
  define u where "u = step (animationEffect initialState)"
  have "animRef (animationEffect initialState) = Num 0"
    and "degrees (animationEffect initialState) = Num 0"
    by (simp_all add: animationEffect_def initialState_def)
  then have rest: "u = (animationEffect initialState)\<lparr>animatedDeg := Num 0, framePending := False\<rparr>"
    unfolding u_def by (rule step_idle)
  have p: "\<not> framePending u" by (simp add: rest)
  have "framePending (animationEffect initialState)" by (simp add: animationEffect_def)
  with reachable.mounted have ru: "reachable validPoint u"
    unfolding u_def by (rule reachable.frame)
  from label_follows_target [OF ru] p
  have a: "direction u = bearingToDirection (animatedDeg u)" by blast
  show ?thesis unfolding s_def [symmetric] u_def [symmetric] by (intro conjI r d l ru p a)
qed

text \<open>
  Claim C8, as stated: the current angle is in the range from 0 to 360 in every reachable
  state. It fails after an update with the finite latitude \<open>1e308\<close>: the target becomes
  \<open>NaN\<close>, and the next tick takes the easing branch and sets the current angle to \<open>NaN\<close>.
\<close>

theorem needle_becomes_NaN:
  "reachable anyPoint
     (step (newLocations (Some \<lparr>lat = 0, lng = 0\<rparr>) (Some \<lparr>lat = 10 ^ 308, lng = 0\<rparr>)
       (animationEffect initialState)))
   \<and> animRef (step (newLocations (Some \<lparr>lat = 0, lng = 0\<rparr>) (Some \<lparr>lat = 10 ^ 308, lng = 0\<rparr>)
       (animationEffect initialState))) = NaN
   \<and> \<not> inRange (animRef (step (newLocations (Some \<lparr>lat = 0, lng = 0\<rparr>)
       (Some \<lparr>lat = 10 ^ 308, lng = 0\<rparr>) (animationEffect initialState))))"
proof -
  have "\<not> inRange NaN" by (simp add: inRange_def)
  then show ?thesis using reachable_overflow by (simp only: step_overflow) simp
qed

text \<open>
  Claim C8, amended: a tick keeps the current angle in the range from 0 to 360 when the
  current angle and the target are in it: the snapping branch assigns the target and the
  easing branch assigns \<open>(current + delta * 0.18 + 360) % 360\<close>, which is in the range as
  well. The current angle starts at 0, and it is in the range in every state reachable with
  location props whose coordinates do not overflow in \<open>calculateBearing\<close>, in particular
  with valid points.
\<close>

theorem tick_keeps_range:
  assumes "inRange (animRef s)" and "inRange (degrees s)"
  shows "inRange (animRef (step s)) \<and> inRange (degrees (step s))
    \<and> (animRef (step s) = degrees s
        \<or> animRef (step s) = easedAngle (animRef s) (shortestDelta (degrees s) (animRef s)))
    \<and> inRange (easedAngle (animRef s) (shortestDelta (degrees s) (animRef s)))
    \<and> animRef initialState = Num 0
    \<and> (\<forall>r. reachable safePoint r \<longrightarrow> inRange (animRef r) \<and> inRange (degrees r))
    \<and> (\<forall>r. reachable validPoint r \<longrightarrow> inRange (animRef r) \<and> inRange (degrees r))"
proof -
  have a: "inRange (animRef (step s))" using assms by (rule step_inRange)
  have b: "inRange (degrees (step s))" using assms(2) by (simp only: step_degrees)
  have c: "animRef (step s) = degrees s
      \<or> animRef (step s) = easedAngle (animRef s) (shortestDelta (degrees s) (animRef s))"
    by (simp add: step_def Let_def)
  have d: "inRange (easedAngle (animRef s) (shortestDelta (degrees s) (animRef s)))"
    using assms by (rule eased_inRange)
  have e: "animRef initialState = Num 0" by (simp add: initialState_def)
  have f: "\<forall>r. reachable safePoint r \<longrightarrow> inRange (animRef r) \<and> inRange (degrees r)"
    using reachable_inRange by blast
  have g: "\<forall>r. reachable validPoint r \<longrightarrow> inRange (animRef r) \<and> inRange (degrees r)"
  proof (intro allI impI)
    fix r
    assume "reachable validPoint r"
    then have "reachable safePoint r" by (rule reachable_mono) (rule validPoint_safe)
    then show "inRange (animRef r) \<and> inRange (degrees r)" by (rule reachable_inRange)
  qed
  show ?thesis by (intro conjI a b c d e f g)
qed

theorem tick_keeps_range_witness:
  "inRange (Num 350) \<and> inRange (Num 10)
   \<and> framePending (step \<lparr>direction = Some ''N'', degrees = Num 10, animatedDeg = Num 350,
       animRef = Num 350, framePending = True\<rparr>)
   \<and> animRef (step \<lparr>direction = Some ''N'', degrees = Num 10, animatedDeg = Num 350,
       animRef = Num 350, framePending = True\<rparr>) = Num (1768 / 5)
   \<and> inRange (animRef (step \<lparr>direction = Some ''N'', degrees = Num 10, animatedDeg = Num 350,
       animRef = Num 350, framePending = True\<rparr>))
   \<and> reachable validPoint
       (step (newLocations (Some \<lparr>lat = 0, lng = 1\<rparr>) (Some \<lparr>lat = 0, lng = 0\<rparr>)
         (animationEffect initialState)))
   \<and> animRef (step (newLocations (Some \<lparr>lat = 0, lng = 1\<rparr>) (Some \<lparr>lat = 0, lng = 0\<rparr>)
         (animationEffect initialState))) = Num (81 / 5)
   \<and> inRange (animRef (step (newLocations (Some \<lparr>lat = 0, lng = 1\<rparr>)
         (Some \<lparr>lat = 0, lng = 0\<rparr>) (animationEffect initialState))))"
proof -
  define s where "s = \<lparr>direction = Some ''N'', degrees = Num 10, animatedDeg = Num 350,
    animRef = Num 350, framePending = True\<rparr>"
  define u where "u = step (newLocations (Some \<lparr>lat = 0, lng = 1\<rparr>)
    (Some \<lparr>lat = 0, lng = 0\<rparr>) (animationEffect initialState))"
  have c: "inRange (Num 350)" and t: "inRange (Num 10)" by (simp_all add: inRange_Num)
  have cs: "inRange (animRef s)" and ts: "inRange (degrees s)"
    by (simp_all add: s_def inRange_Num)
  note tk = tick_keeps_range [OF cs ts]
  from tk have r: "inRange (animRef (step s))" by blast
  have e: "framePending (step s)" "animRef (step s) = Num (1768 / 5)"
    by (simp_all add: s_def step_350_to_10)
  have "framePending (newLocations (Some \<lparr>lat = 0, lng = 1\<rparr>) (Some \<lparr>lat = 0, lng = 0\<rparr>)
      (animationEffect initialState))"
    by (simp add: east_update)
  with east_reachable have ru: "reachable validPoint u"
    unfolding u_def by (rule reachable.frame)
  have au: "animRef u = Num (81 / 5)" by (simp add: u_def step_after_east_update)
  from tk ru have iu: "inRange (animRef u)" by blast
  show ?thesis unfolding s_def [symmetric] u_def [symmetric]
    by (intro conjI c t e r ru au iu)
qed

text \<open>
  Claim C9. Once the current angle equals the target exactly, both being one finite number,
  a tick computes the delta 0, which is below the threshold 0.3, snaps to the same value and
  requests no frame: the current angle is unchanged, and a state that is idle already is a
  fixed point of the tick.
\<close>

theorem idle_is_stable:
  assumes "animRef s = degrees s" and "degrees s = Num a"
  shows "shortestDelta (degrees s) (animRef s) = Num 0
    \<and> animRef (step s) = animRef s \<and> degrees (step s) = degrees s
    \<and> \<not> framePending (step s)
    \<and> step (step s) = step s
    \<and> (animatedDeg s = animRef s \<and> \<not> framePending s \<longrightarrow> step s = s)"
proof -
  have cur: "animRef s = Num a" using assms by simp
  have "deltaValue a a = 0" by (simp add: deltaValue_def jsmod_def jsTrunc_def)
  moreover have "shortestDelta (Num a) (Num a) = Num (deltaValue a a)"
    by (rule shortestDelta_Num) simp
  ultimately have d: "shortestDelta (degrees s) (animRef s) = Num 0"
    by (simp add: cur assms(2))
  have st: "step s = s\<lparr>animatedDeg := Num a, framePending := False\<rparr>"
    using cur assms(2) by (rule step_idle)
  have "animRef (step s) = Num a" and "degrees (step s) = Num a"
    using cur assms(2) by (simp_all add: st)
  from step_idle [OF this] have again: "step (step s) = step s" by (simp add: st)
  have idle: "animatedDeg s = animRef s \<and> \<not> framePending s \<longrightarrow> step s = s"
    using cur by (simp add: st)
  have keep: "animRef (step s) = animRef s" "degrees (step s) = degrees s"
    "\<not> framePending (step s)"
    by (simp_all add: st)
  show ?thesis by (intro conjI d keep again idle)
qed

theorem idle_is_stable_witness:
  "step \<lparr>direction = Some ''E'', degrees = Num 90, animatedDeg = Num 90, animRef = Num 90,
         framePending = False\<rparr>
     = \<lparr>direction = Some ''E'', degrees = Num 90, animatedDeg = Num 90, animRef = Num 90,
        framePending = False\<rparr>"
proof -
  define s where "s = \<lparr>direction = Some ''E'', degrees = Num 90, animatedDeg = Num 90,
    animRef = Num 90, framePending = False\<rparr>"
  have h: "animRef s = degrees s" and n: "degrees s = Num 90" by (simp_all add: s_def)
  have i: "animatedDeg s = animRef s \<and> \<not> framePending s" by (simp add: s_def)
  from idle_is_stable [OF h n] i have "step s = s" by blast
  then show ?thesis by (simp only: s_def)
qed

text \<open>
  Claim C10. \<open>Math.round\<close> rounds a half upward, so a bearing that is an odd multiple of
  11.25 in the range from 0 to 360 gets the label of the next sector clockwise: the multiple
  \<open>2k + 1\<close> gets the label at position \<open>k + 1\<close>, which wraps from 16 to 0. In particular
  11.25 is NNE, 33.75 is NE and 348.75 is N.
\<close>

theorem boundary_goes_clockwise:
  assumes "k < 16"
  shows "inRange (Num (45 / 4 * (2 * real k + 1)))
    \<and> jsRound (45 / 4 * (2 * real k + 1) / (45 / 2)) = int k + 1
    \<and> bearingToDirection (Num (45 / 4 * (2 * real k + 1)))
        = Some (directions ! ((k + 1) mod 16))
    \<and> bearingToDirection (Num (45 / 4)) = Some ''NNE''
    \<and> bearingToDirection (Num (135 / 4)) = Some ''NE''
    \<and> bearingToDirection (Num (1395 / 4)) = Some ''N''"
proof -
  have "real k \<le> 15" using assms by simp
  then have range: "inRange (Num (45 / 4 * (2 * real k + 1)))" by (simp add: inRange_Num)
  have "45 / 4 * (2 * real k + 1) / (45 / 2) = real k + 1 / 2" by simp
  then have round: "jsRound (45 / 4 * (2 * real k + 1) / (45 / 2)) = int k + 1"
    using jsRound_half [of k] by (simp only:)
  have "nat ((int k + 1) mod 16) = (k + 1) mod 16"
    by (simp add: nat_mod_distrib nat_add_distrib)
  then have label: "bearingToDirection (Num (45 / 4 * (2 * real k + 1)))
      = Some (directions ! ((k + 1) mod 16))"
    using bearingToDirection_sector [OF range] by (simp only: round)
  have examples: "bearingToDirection (Num (45 / 4)) = Some ''NNE''"
      "bearingToDirection (Num (135 / 4)) = Some ''NE''"
      "bearingToDirection (Num (1395 / 4)) = Some ''N''"
    by (simp_all add: bearingToDirection_def directionIndex_def jsRound_def jsmod_def
        jsTrunc_def fromReal_small directions_def)
  show ?thesis by (intro conjI range round label examples)
qed

theorem boundary_goes_clockwise_witness:
  "(7::nat) < 16 \<and> bearingToDirection (Num (675 / 4)) = Some ''S''"
proof -
  have h: "(7::nat) < 16" by simp
  from boundary_goes_clockwise [OF h]
  have "bearingToDirection (Num (45 / 4 * (2 * real 7 + 1)))
      = Some (directions ! ((7 + 1) mod 16))"
    by blast
  then show ?thesis by (simp add: directions_def)
qed

end
